theory Spec2Isabelle
  imports Main "HOL-Library.Word"
begin

section \<open>Reading a file as text\<close>

text \<open>
  \<^verbatim>\<open>count_lines.py\<close> opens every matching file with
  \<^verbatim>\<open>open(path, 'r', encoding='utf-8', errors='ignore')\<close> and counts the lines the
  file object yields: \<^verbatim>\<open>lines = sum(1 for _ in f)\<close>.  The file object decodes the bytes of
  the file as UTF-8 under the given error policy, translates line endings (the default
  \<^verbatim>\<open>newline=None\<close>) and hands the text out line by line.  These three layers are modelled
  one after the other.  A byte is an 8-bit word, a decoded character is its code point.
\<close>

type_synonym byte = "8 word"
type_synonym codepoint = nat

subsection \<open>The UTF-8 decoder and its error policy\<close>

datatype errors_policy = Strict | Ignore

text \<open>
  What the decoder finds at the head of the remaining input: a character made of the
  first \<open>n\<close> bytes, an invalid sequence of \<open>n\<close> bytes (an invalid start byte, or a start
  byte whose continuation breaks off after \<open>n\<close> bytes), or a sequence cut short by the end
  of the data.
\<close>

datatype scan = Char codepoint nat | Invalid nat | Truncated

definition is_continuation :: "byte \<Rightarrow> bool" where
  "is_continuation b \<longleftrightarrow> 0x80 \<le> b \<and> b < 0xC0"

definition payload :: "byte \<Rightarrow> nat" where
  "payload b = unat b mod 64"

fun utf8_scan :: "byte \<Rightarrow> byte list \<Rightarrow> scan" where
  "utf8_scan ch rest =
     (if ch < 0x80 then Char (unat ch) 1
      else if ch < 0xC2 then Invalid 1
      else if ch < 0xE0 then
        (case rest of
           [] \<Rightarrow> Truncated
         | ch2 # _ \<Rightarrow>
             if \<not> is_continuation ch2 then Invalid 1
             else Char ((unat ch mod 32) * 64 + payload ch2) 2)
      else if ch < 0xF0 then
        (case rest of
           [] \<Rightarrow> Truncated
         | ch2 # rest2 \<Rightarrow>
             if \<not> is_continuation ch2 \<or> (if ch2 < 0xA0 then ch = 0xE0 else ch = 0xED)
             then Invalid 1
             else (case rest2 of
                     [] \<Rightarrow> Truncated
                   | ch3 # _ \<Rightarrow>
                       if \<not> is_continuation ch3 then Invalid 2
                       else Char ((unat ch mod 16) * 4096 + payload ch2 * 64 + payload ch3) 3))
      else if ch < 0xF5 then
        (case rest of
           [] \<Rightarrow> Truncated
         | ch2 # rest2 \<Rightarrow>
             if \<not> is_continuation ch2 \<or> (if ch2 < 0x90 then ch = 0xF0 else ch = 0xF4)
             then Invalid 1
             else (case rest2 of
                     [] \<Rightarrow> Truncated
                   | ch3 # rest3 \<Rightarrow>
                       if \<not> is_continuation ch3 then Invalid 2
                       else (case rest3 of
                               [] \<Rightarrow> Truncated
                             | ch4 # _ \<Rightarrow>
                                 if \<not> is_continuation ch4 then Invalid 3
                                 else Char ((unat ch mod 8) * 262144 + payload ch2 * 4096
                                            + payload ch3 * 64 + payload ch4) 4)))
      else Invalid 1)"

text \<open>
  The decoding loop.  Under \<open>Strict\<close> an invalid or truncated sequence raises
  \<^verbatim>\<open>UnicodeDecodeError\<close> (the left injection, with the reason); under \<open>Ignore\<close> the
  offending bytes are skipped and decoding goes on behind them.
\<close>

function utf8_decode :: "errors_policy \<Rightarrow> byte list \<Rightarrow> string + codepoint list" where
  "utf8_decode pol [] = Inr []"
| "utf8_decode pol (ch # rest) =
     (case utf8_scan ch rest of
        Char c n \<Rightarrow>
          (case utf8_decode pol (drop (n - 1) rest) of
             Inl e \<Rightarrow> Inl e
           | Inr cs \<Rightarrow> Inr (c # cs))
      | Invalid n \<Rightarrow>
          (case pol of
             Strict \<Rightarrow> Inl (if n = 1 \<and> (ch < 0xC2 \<or> 0xF5 \<le> ch) then ''invalid start byte''
                             else ''invalid continuation byte'')
           | Ignore \<Rightarrow> utf8_decode pol (drop (n - 1) rest))
      | Truncated \<Rightarrow>
          (case pol of
             Strict \<Rightarrow> Inl ''unexpected end of data''
           | Ignore \<Rightarrow> Inr []))"
  by pat_completeness auto
termination
  by (relation "measure (\<lambda>(pol, bs). length bs)") auto

subsection \<open>Universal newlines and line iteration\<close>

abbreviation LF :: codepoint where "LF \<equiv> 10"
abbreviation CR :: codepoint where "CR \<equiv> 13"

text \<open>
  With \<^verbatim>\<open>newline=None\<close> the text layer turns \<^verbatim>\<open>\r\n\<close> and a lone \<^verbatim>\<open>\r\<close> into
  \<^verbatim>\<open>\n\<close> before the text is cut into lines.
\<close>

fun translate_newlines :: "codepoint list \<Rightarrow> codepoint list" where
  "translate_newlines [] = []"
| "translate_newlines [c] = [if c = CR then LF else c]"
| "translate_newlines (c # d # cs) =
     (if c = CR \<and> d = LF then LF # translate_newlines cs
      else (if c = CR then LF else c) # translate_newlines (d # cs))"

text \<open>
  Iterating over the file yields the lines of the translated text, each with its
  terminating \<^verbatim>\<open>\n\<close>; text behind the last \<^verbatim>\<open>\n\<close> is a last line without one.
\<close>

fun readlines :: "codepoint list \<Rightarrow> codepoint list list" where
  "readlines [] = []"
| "readlines (c # cs) =
     (if c = LF then [LF] # readlines cs
      else (case readlines cs of
              [] \<Rightarrow> [[c]]
            | l # ls \<Rightarrow> (c # l) # ls))"

text \<open>\<^verbatim>\<open>sum(1 for _ in f)\<close>: one for every line the file yields.\<close>

definition count_file_lines :: "codepoint list \<Rightarrow> int" where
  "count_file_lines text = sum_list (map (\<lambda>_. 1) (readlines (translate_newlines text)))"

section \<open>Strings: suffix test, path joining, \<^verbatim>\<open>str\<close> and \<^verbatim>\<open>repr\<close>\<close>

text \<open>
  File names, paths and error messages are strings of characters with code points below
  256.  \<^verbatim>\<open>fname.endswith(suffix)\<close>:
\<close>

definition endswith :: "string \<Rightarrow> string \<Rightarrow> bool" where
  "endswith s suffix \<longleftrightarrow>
     length suffix \<le> length s \<and> drop (length s - length suffix) s = suffix"

text \<open>\<^verbatim>\<open>os.path.join(a, b)\<close> of \<^verbatim>\<open>posixpath\<close>, for one component \<open>b\<close>.\<close>

definition startswith :: "string \<Rightarrow> string \<Rightarrow> bool" where
  "startswith s prefix \<longleftrightarrow> take (length prefix) s = prefix"

definition os_path_join :: "string \<Rightarrow> string \<Rightarrow> string" where
  "os_path_join a b =
     (if startswith b ''/'' then b
      else if a = [] \<or> endswith a ''/'' then a @ b
      else a @ ''/'' @ b)"

text \<open>\<^verbatim>\<open>str(n)\<close> of an integer: decimal digits, a minus sign in front when negative.\<close>

fun digits :: "nat \<Rightarrow> string" where
  "digits n = (if n < 10 then [char_of (48 + n)]
               else digits (n div 10) @ [char_of (48 + n mod 10)])"

definition str_int :: "int \<Rightarrow> string" where
  "str_int i = (if i < 0 then ''-'' @ digits (nat (- i)) else digits (nat i))"

text \<open>
  \<^verbatim>\<open>repr(s)\<close> of a string (the \<^verbatim>\<open>!r\<close> conversion of the f-strings): single quotes
  around it, double quotes when the string holds a single quote and no double quote;
  the quote and the backslash are escaped, so are tab, newline and carriage return, and
  every other unprintable character is written \<^verbatim>\<open>\xhh\<close>.
\<close>

definition hex_digit :: "nat \<Rightarrow> char" where
  "hex_digit d = (if d < 10 then char_of (48 + d) else char_of (87 + d))"

definition is_printable :: "char \<Rightarrow> bool" where
  "is_printable c \<longleftrightarrow>
     (let n = (of_char c :: nat) in (32 \<le> n \<and> n < 127) \<or> (161 \<le> n \<and> n \<noteq> 173))"

definition repr_char :: "char \<Rightarrow> char \<Rightarrow> string" where
  "repr_char quote c =
     (if c = quote \<or> c = CHR 0x5C then [CHR 0x5C, c]
      else if c = CHR 0x09 then [CHR 0x5C, CHR ''t'']
      else if c = CHR 0x0A then [CHR 0x5C, CHR ''n'']
      else if c = CHR 0x0D then [CHR 0x5C, CHR ''r'']
      else if \<not> is_printable c
        then [CHR 0x5C, CHR ''x'', hex_digit (of_char c div 16), hex_digit (of_char c mod 16)]
      else [c])"

definition py_repr :: "string \<Rightarrow> string" where
  "py_repr s =
     (let quote = (if CHR 0x27 \<in> set s \<and> CHR 0x22 \<notin> set s then CHR 0x22 else CHR 0x27)
      in [quote] @ concat (map (repr_char quote) s) @ [quote])"

section \<open>The file system\<close>

text \<open>
  A file either gives its bytes or fails to open or to be read; the failure carries the
  text of the exception.  A directory has its entries in the order in which it lists
  them, and may refuse to be listed (\<open>Some\<close> of the error); a symbolic link has a target.
\<close>

datatype file_state = Readable "byte list" | Unreadable string

datatype node =
    File file_state
  | Dir "string option" "(string \<times> node) list"
  | Symlink node

text \<open>What \<^verbatim>\<open>open(path)\<close> and reading to the end give; links are followed.\<close>

fun open_read :: "node \<Rightarrow> string + byte list" where
  "open_read (File (Readable bs)) = Inr bs"
| "open_read (File (Unreadable cause)) = Inl cause"
| "open_read (Dir _ _) = Inl ''Is a directory''"
| "open_read (Symlink t) = open_read t"

text \<open>
  Lines 17 and 18 of the source: open the file with UTF-8 decoding and
  \<^verbatim>\<open>errors='ignore'\<close>, count its lines.  Any exception is a left injection.
\<close>

definition read_line_count :: "errors_policy \<Rightarrow> node \<Rightarrow> string + int" where
  "read_line_count pol n =
     (case open_read n of
        Inl cause \<Rightarrow> Inl cause
      | Inr bs \<Rightarrow>
          (case utf8_decode pol bs of
             Inl reason \<Rightarrow> Inl reason
           | Inr text \<Rightarrow> Inr (count_file_lines text)))"

subsection \<open>\<^verbatim>\<open>os.walk\<close>\<close>

fun is_dir :: "node \<Rightarrow> bool" where
  "is_dir (File _) = False"
| "is_dir (Dir _ _) = True"
| "is_dir (Symlink t) = is_dir t"

fun islink :: "node \<Rightarrow> bool" where
  "islink (Symlink _) = True"
| "islink _ = False"

text \<open>
  \<^verbatim>\<open>os.walk(top)\<close> with its defaults (top-down, \<^verbatim>\<open>onerror=None\<close>,
  \<^verbatim>\<open>followlinks=False\<close>) yields, for every directory it can list, the directory's path,
  the names of its subdirectories and its other entries; then it walks the
  subdirectories that are not symbolic links.  A directory that cannot be listed yields
  nothing: with no error handler the \<^verbatim>\<open>OSError\<close> is dropped.  Each file name is kept
  together with the node it names, which is what \<^verbatim>\<open>open\<close> will find at the joined path.
\<close>

type_synonym walk_item = "string \<times> string list \<times> (string \<times> node) list"

fun walk :: "string \<Rightarrow> node \<Rightarrow> walk_item list"
  and walk_subdirs :: "string \<Rightarrow> (string \<times> node) list \<Rightarrow> walk_item list" where
  "walk tp (File f) = []"
| "walk tp (Symlink t) = walk tp t"
| "walk tp (Dir (Some err) entries) = []"
| "walk tp (Dir None entries) =
     (tp, map fst (filter (\<lambda>e. is_dir (snd e)) entries), filter (\<lambda>e. \<not> is_dir (snd e)) entries)
       # walk_subdirs tp entries"
| "walk_subdirs tp [] = []"
| "walk_subdirs tp ((name, n) # entries) =
     (if is_dir n \<and> \<not> islink n then walk (os_path_join tp name) n else [])
       @ walk_subdirs tp entries"

section \<open>The program\<close>

subsection \<open>What it prints\<close>

text \<open>
  Every \<^verbatim>\<open>print\<close> call of the source is an event; the events are kept in the order in
  which they happen.  \<open>render\<close> gives the stream an event goes to and the text that
  \<^verbatim>\<open>print\<close> receives, following the f-strings of the source.
\<close>

datatype event =
    FileLine string int
  | ReadWarning string string
  | NotADirectory string
  | Banner string
  | Summary string int int
  | Separator
  | GrandTotal nat int int int

datatype stream = Stdout | Stderr

fun render :: "event \<Rightarrow> stream \<times> string" where
  "render (FileLine path lines) = (Stdout, path @ '': '' @ str_int lines @ '' lines'')"
| "render (ReadWarning path e) =
     (Stderr, ''Warning: could not read '' @ py_repr path @ '': '' @ e)"
| "render (NotADirectory d) = (Stderr, ''Error: '' @ py_repr d @ '' is not a directory'')"
| "render (Banner d) = (Stdout, [CHR 0x0A] @ ''== Scanning '' @ py_repr d @ '' =='')"
| "render (Summary d cpp hpp) =
     (Stdout, [CHR 0x0A] @ ''Summary for '' @ py_repr d @ '': .cpp='' @ str_int cpp
                @ ''  .hpp='' @ str_int hpp @ ''  sum='' @ str_int (cpp + hpp))"
| "render Separator = (Stdout, [CHR 0x0A] @ replicate 40 CHR ''='')"
| "render (GrandTotal k total_cpp total_hpp grand_total) =
     (Stdout, ''TOTAL across '' @ str_int (int k) @ '' dirs: .cpp='' @ str_int total_cpp
                @ ''  .hpp='' @ str_int total_hpp @ ''  sum='' @ str_int grand_total)"

definition stdout_of :: "event list \<Rightarrow> string list" where
  "stdout_of evs = map snd (filter (\<lambda>p. fst p = Stdout) (map render evs))"

definition stderr_of :: "event list \<Rightarrow> string list" where
  "stderr_of evs = map snd (filter (\<lambda>p. fst p = Stderr) (map render evs))"

subsection \<open>\<^verbatim>\<open>count_lines\<close>\<close>

text \<open>The local state of \<^verbatim>\<open>count_lines\<close>: the two counters, and what has been printed.\<close>

record counters =
  printed :: "event list"
  cpp_lines :: int
  hpp_lines :: int

text \<open>
  The body of the inner loop (lines 12 to 29) for one file name of a directory.  The
  error policy is the \<^verbatim>\<open>errors\<close> argument of \<^verbatim>\<open>open\<close>.
\<close>

definition file_step :: "errors_policy \<Rightarrow> string \<Rightarrow> string \<times> node \<Rightarrow> counters \<Rightarrow> counters" where
  "file_step pol dirpath entry st =
     (let fname = fst entry in
      if \<not> (endswith fname ''.cpp'' \<or> endswith fname ''.hpp'') then st
      else
        let path = os_path_join dirpath fname in
        case read_line_count pol (snd entry) of
          Inl e \<Rightarrow> st\<lparr>printed := printed st @ [ReadWarning path e]\<rparr>
        | Inr lines \<Rightarrow>
            let st' = st\<lparr>printed := printed st @ [FileLine path lines]\<rparr> in
            if endswith fname ''.cpp''
            then st'\<lparr>cpp_lines := cpp_lines st' + lines\<rparr>
            else st'\<lparr>hpp_lines := hpp_lines st' + lines\<rparr>)"

text \<open>The inner loop over \<^verbatim>\<open>filenames\<close> and the outer loop over what \<^verbatim>\<open>os.walk\<close> yields.\<close>

definition files_loop :: "errors_policy \<Rightarrow> string \<Rightarrow> (string \<times> node) list \<Rightarrow> counters \<Rightarrow> counters" where
  "files_loop pol dirpath filenames st = fold (file_step pol dirpath) filenames st"

definition walk_loop :: "errors_policy \<Rightarrow> walk_item list \<Rightarrow> counters \<Rightarrow> counters" where
  "walk_loop pol items st =
     fold (\<lambda>(dirpath, dirnames, filenames). files_loop pol dirpath filenames) items st"

text \<open>
  The file system the program runs in: what a root path names, if anything.
  \<^verbatim>\<open>os.walk\<close> of a path that names nothing yields nothing.
\<close>

type_synonym filesystem = "string \<Rightarrow> node option"

definition os_walk :: "filesystem \<Rightarrow> string \<Rightarrow> walk_item list" where
  "os_walk fs root = (case fs root of None \<Rightarrow> [] | Some n \<Rightarrow> walk root n)"

definition count_lines_with :: "errors_policy \<Rightarrow> filesystem \<Rightarrow> string \<Rightarrow> counters" where
  "count_lines_with pol fs root =
     walk_loop pol (os_walk fs root) \<lparr>printed = [], cpp_lines = 0, hpp_lines = 0\<rparr>"

text \<open>\<^verbatim>\<open>count_lines(root)\<close>: the source opens every file with \<^verbatim>\<open>errors='ignore'\<close>.\<close>

definition count_lines :: "filesystem \<Rightarrow> string \<Rightarrow> counters" where
  "count_lines fs root = count_lines_with Ignore fs root"

subsection \<open>\<^verbatim>\<open>main\<close>\<close>

text \<open>
  \<^verbatim>\<open>args.dirs\<close>: the positional arguments, or \<^verbatim>\<open>['.']\<close> when there are none
  (\<^verbatim>\<open>nargs='*'\<close>, \<^verbatim>\<open>default=['.']\<close>).  Argument lists with option-like words, which
  \<^verbatim>\<open>argparse\<close> rejects or answers with the help text, are outside the model.
\<close>

definition args_dirs :: "string list \<Rightarrow> string list" where
  "args_dirs argv = (if argv = [] then [''.''] else argv)"

definition os_path_isdir :: "filesystem \<Rightarrow> string \<Rightarrow> bool" where
  "os_path_isdir fs d = (case fs d of None \<Rightarrow> False | Some n \<Rightarrow> is_dir n)"

record totals =
  emitted :: "event list"
  total_cpp :: int
  total_hpp :: int

text \<open>The body of the loop over \<^verbatim>\<open>args.dirs\<close> (lines 50 to 58).\<close>

definition dir_step :: "filesystem \<Rightarrow> string \<Rightarrow> totals \<Rightarrow> totals" where
  "dir_step fs d st =
     (if \<not> os_path_isdir fs d then st\<lparr>emitted := emitted st @ [NotADirectory d]\<rparr>
      else
        let r = count_lines fs d; cpp = cpp_lines r; hpp = hpp_lines r in
        st\<lparr>emitted := emitted st @ [Banner d] @ printed r @ [Summary d cpp hpp],
           total_cpp := total_cpp st + cpp,
           total_hpp := total_hpp st + hpp\<rparr>)"

definition dirs_loop :: "filesystem \<Rightarrow> string list \<Rightarrow> totals" where
  "dirs_loop fs dirs = fold (dir_step fs) dirs \<lparr>emitted = [], total_cpp = 0, total_hpp = 0\<rparr>"

text \<open>\<^verbatim>\<open>main\<close> after argument parsing: everything the run prints, in order.\<close>

definition main :: "filesystem \<Rightarrow> string list \<Rightarrow> event list" where
  "main fs argv =
     (let dirs = args_dirs argv;
          st = dirs_loop fs dirs;
          grand_total = total_cpp st + total_hpp st
      in if length dirs > 1
         then emitted st @ [Separator, GrandTotal (length dirs) (total_cpp st) (total_hpp st) grand_total]
         else emitted st)"

subsection \<open>Exceptions that leave \<^verbatim>\<open>count_lines\<close>\<close>














section \<open>Notions used in the statements\<close>

subsection \<open>The files of a subtree and their category totals\<close>

text \<open>
  The count a file contributes when it is read successfully; a file that cannot be read
  contributes nothing.
\<close>

definition lines_read :: "node \<Rightarrow> int" where
  "lines_read n = (case read_line_count Ignore n of Inl _ \<Rightarrow> 0 | Inr k \<Rightarrow> k)"

text \<open>
  The files anywhere below a root, entry by entry and depth first: every entry that is
  not a directory, in the root and in each nested subdirectory that can be listed.  A
  symbolic link to a directory is not part of the subtree.
\<close>

fun files_under :: "node \<Rightarrow> (string \<times> node) list"
  and files_in :: "(string \<times> node) list \<Rightarrow> (string \<times> node) list" where
  "files_under (File f) = []"
| "files_under (Symlink t) = files_under t"
| "files_under (Dir (Some err) entries) = []"
| "files_under (Dir None entries) = files_in entries"
| "files_in [] = []"
| "files_in ((name, n) # entries) =
     (if \<not> is_dir n then [(name, n)]
      else if islink n then []
      else files_under n) @ files_in entries"

definition category_total :: "string \<Rightarrow> node \<Rightarrow> int" where
  "category_total suffix root =
     sum_list (map (\<lambda>e. if endswith (fst e) suffix then lines_read (snd e) else 0)
                   (files_under root))"

text \<open>The counts shown by the per-file lines among the printed events.\<close>

fun printed_counts :: "event list \<Rightarrow> int list" where
  "printed_counts [] = []"
| "printed_counts (FileLine path lines # evs) = lines # printed_counts evs"
| "printed_counts (e # evs) = printed_counts evs"

subsection \<open>A text as terminated lines and a last line\<close>

text \<open>
  A line is a run of characters with no line break in it.  The text layer ends a line at
  \<^verbatim>\<open>\n\<close>, at \<^verbatim>\<open>\r\n\<close> and at a lone \<^verbatim>\<open>\r\<close>.  \<open>lines_text ls final\<close> is the text made
  of the terminated lines \<open>ls\<close> followed by the unterminated line \<open>final\<close>;
  \<open>well_split\<close> says that this is how the text reads: no line holds a line break, a
  lone \<^verbatim>\<open>\r\<close> is not followed by \<^verbatim>\<open>\n\<close> (the two would be one \<^verbatim>\<open>\r\n\<close>), and the last
  line has at least one character.
\<close>

datatype line_end = End_LF | End_CRLF | End_CR

fun line_end_text :: "line_end \<Rightarrow> codepoint list" where
  "line_end_text End_LF = [LF]"
| "line_end_text End_CRLF = [CR, LF]"
| "line_end_text End_CR = [CR]"

fun lines_text :: "(codepoint list \<times> line_end) list \<Rightarrow> codepoint list \<Rightarrow> codepoint list" where
  "lines_text [] final = final"
| "lines_text ((l, e) # ls) final = l @ line_end_text e @ lines_text ls final"

fun well_split :: "(codepoint list \<times> line_end) list \<Rightarrow> codepoint list \<Rightarrow> bool" where
  "well_split [] final \<longleftrightarrow> final \<noteq> [] \<and> LF \<notin> set final \<and> CR \<notin> set final"
| "well_split ((l, e) # ls) final \<longleftrightarrow>
     LF \<notin> set l \<and> CR \<notin> set l
     \<and> (e = End_CR \<longrightarrow> take 1 (lines_text ls final) \<noteq> [LF])
     \<and> well_split ls final"

subsection \<open>A tree without its unlistable subdirectories\<close>

text \<open>
  \<open>strip_unlistable\<close> removes every subdirectory that cannot be listed, with all it
  holds, at any depth; a root that cannot be listed itself is emptied.
\<close>

fun strip_unlistable :: "node \<Rightarrow> node"
  and strip_entries :: "(string \<times> node) list \<Rightarrow> (string \<times> node) list" where
  "strip_unlistable (File f) = File f"
| "strip_unlistable (Symlink t) = Symlink t"
| "strip_unlistable (Dir (Some err) entries) = Dir (Some err) []"
| "strip_unlistable (Dir None entries) = Dir None (strip_entries entries)"
| "strip_entries [] = []"
| "strip_entries ((name, n) # entries) =
     (case n of
        Dir (Some err) sub \<Rightarrow> strip_entries entries
      | _ \<Rightarrow> (name, strip_unlistable n) # strip_entries entries)"

subsection \<open>Auxiliary notions of the proofs\<close>

definition tally :: "string \<Rightarrow> string \<times> node \<Rightarrow> int" where
  "tally suffix e = (if endswith (fst e) suffix then lines_read (snd e) else 0)"

definition item_files :: "walk_item list \<Rightarrow> (string \<times> node) list" where
  "item_files items = concat (map (\<lambda>i. snd (snd i)) items)"

definition visits :: "walk_item list \<Rightarrow> (string \<times> (string \<times> node) list) list" where
  "visits items = map (\<lambda>i. (fst i, snd (snd i))) items"

definition balanced :: "counters \<Rightarrow> bool" where
  "balanced st \<longleftrightarrow> cpp_lines st + hpp_lines st = sum_list (printed_counts (printed st))"

fun file_event :: "event \<Rightarrow> bool" where
  "file_event (FileLine _ _) = True"
| "file_event (ReadWarning _ _) = True"
| "file_event _ = False"

fun root_event :: "event \<Rightarrow> bool" where
  "root_event Separator = False"
| "root_event (GrandTotal _ _ _ _) = False"
| "root_event _ = True"

subsection \<open>Example trees\<close>

text \<open>
  A tree with a source file of three lines, a header of five lines and an unreadable
  source file in a subdirectory, a file of another kind, and a subdirectory that cannot
  be listed; a second tree with one header of two lines that starts with an undecodable
  byte.
\<close>

definition tree_a :: node where
  "tree_a = Dir None
     [(''x.cpp'', File (Readable [0x61, 0x0A, 0x62, 0x0A, 0x63])),
      (''sub'', Dir None
         [(''y.hpp'', File (Readable [0x0A, 0x0A, 0x0A, 0x0A, 0x0A])),
          (''z.cpp'', File (Unreadable ''Permission denied''))]),
      (''readme.md'', File (Readable [0x68, 0x69, 0x0A])),
      (''locked'', Dir (Some ''Permission denied'') [(''w.cpp'', File (Readable [0x61]))])]"

definition tree_b :: node where
  "tree_b = Dir None [(''m.hpp'', File (Readable [0xFF, 0x61, 0x0D, 0x0A, 0x62, 0x0A]))]"

definition disk :: filesystem where
  "disk p = (if p = ''a'' then Some tree_a else if p = ''b'' then Some tree_b else None)"



section \<open>Auxiliary facts\<close>

subsection \<open>Decoding and line splitting\<close>

lemma utf8_decode_ignore_total: "\<exists>text. utf8_decode Ignore bs = Inr text"
proof (induction "Ignore" bs rule: utf8_decode.induct)
  case 1
  show ?case by simp
next
  case (2 ch rest)
  show ?case
  proof (cases "utf8_scan ch rest")
    case (Char c n)
    with 2(1) obtain cs where "utf8_decode Ignore (drop (n - 1) rest) = Inr cs" by blast
    with Char show ?thesis by simp
  next
    case (Invalid n)
    with 2(2) show ?thesis by simp
  next
    case Truncated
    then show ?thesis by simp
  qed
qed

lemma count_file_lines_length:
  "count_file_lines text = int (length (readlines (translate_newlines text)))"
  unfolding count_file_lines_def by (induction "readlines (translate_newlines text)") (simp_all add: sum_list_triv)

lemma translate_not_CR: "c \<noteq> CR \<Longrightarrow> translate_newlines (c # cs) = c # translate_newlines cs"
  by (cases cs) simp_all

lemma translate_plain: "CR \<notin> set x \<Longrightarrow> translate_newlines (x @ y) = x @ translate_newlines y"
  by (induction x) (simp_all add: translate_not_CR)

lemma translate_CRLF: "translate_newlines (CR # LF # y) = LF # translate_newlines y"
  by simp

lemma translate_CR: "y = [] \<or> hd y \<noteq> LF \<Longrightarrow> translate_newlines (CR # y) = LF # translate_newlines y"
  by (cases y) auto

lemma readlines_nonempty: "cs \<noteq> [] \<Longrightarrow> readlines cs \<noteq> []"
  by (cases cs) (auto split: list.splits)

lemma length_readlines_line:
  "LF \<notin> set x \<Longrightarrow> length (readlines (x @ LF # y)) = Suc (length (readlines y))"
proof (induction x)
  case Nil
  show ?case by simp
next
  case (Cons c x)
  have "readlines (x @ LF # y) \<noteq> []" by (rule readlines_nonempty) simp
  with Cons show ?case by (auto split: list.splits)
qed

lemma length_readlines_last:
  "x \<noteq> [] \<Longrightarrow> LF \<notin> set x \<Longrightarrow> length (readlines x) = 1"
proof (induction x)
  case Nil
  then show ?case by simp
next
  case (Cons c x)
  show ?case
  proof (cases "x = []")
    case True
    with Cons.prems show ?thesis by simp
  next
    case False
    with Cons have "length (readlines x) = 1" by simp
    with Cons.prems show ?thesis by (auto split: list.splits)
  qed
qed

subsection \<open>The counters after the loops\<close>

lemma cpp_not_hpp: "endswith s ''.cpp'' \<Longrightarrow> \<not> endswith s ''.hpp''"
  by (auto simp: endswith_def)

lemma file_step_cpp:
  "cpp_lines (file_step Ignore dp e st) = cpp_lines st + tally ''.cpp'' e"
  by (auto simp: file_step_def tally_def lines_read_def Let_def split: sum.splits)

lemma file_step_hpp:
  "hpp_lines (file_step Ignore dp e st) = hpp_lines st + tally ''.hpp'' e"
  by (auto simp: file_step_def tally_def lines_read_def Let_def cpp_not_hpp split: sum.splits)

lemma files_loop_cpp:
  "cpp_lines (files_loop Ignore dp fns st) = cpp_lines st + sum_list (map (tally ''.cpp'') fns)"
  unfolding files_loop_def by (induction fns arbitrary: st) (simp_all add: file_step_cpp)

lemma files_loop_hpp:
  "hpp_lines (files_loop Ignore dp fns st) = hpp_lines st + sum_list (map (tally ''.hpp'') fns)"
  unfolding files_loop_def by (induction fns arbitrary: st) (simp_all add: file_step_hpp)

lemma walk_loop_cpp:
  "cpp_lines (walk_loop Ignore items st) = cpp_lines st + sum_list (map (tally ''.cpp'') (item_files items))"
  unfolding walk_loop_def item_files_def
  by (induction items arbitrary: st) (auto simp: files_loop_cpp)

lemma walk_loop_hpp:
  "hpp_lines (walk_loop Ignore items st) = hpp_lines st + sum_list (map (tally ''.hpp'') (item_files items))"
  unfolding walk_loop_def item_files_def
  by (induction items arbitrary: st) (auto simp: files_loop_hpp)

lemma item_files_append [simp]: "item_files (xs @ ys) = item_files xs @ item_files ys"
  by (simp add: item_files_def)

lemma item_files_Cons [simp]: "item_files ((a, b, c) # xs) = c @ item_files xs"
  by (simp add: item_files_def)

lemma item_files_Nil [simp]: "item_files [] = []"
  by (simp add: item_files_def)

lemma sum_walk_files:
  "sum_list (map f (item_files (walk tp n))) = sum_list (map f (files_under n))"
  "sum_list (map f (filter (\<lambda>e. \<not> is_dir (snd e)) es)) + sum_list (map f (item_files (walk_subdirs tp es)))
     = sum_list (map f (files_in es))"
  for f :: "string \<times> node \<Rightarrow> int"
  by (induction tp n and tp es rule: walk_walk_subdirs.induct) auto

lemma length_readlines_split:
  "well_split ls final \<Longrightarrow>
     length (readlines (translate_newlines (lines_text ls final))) = Suc (length ls)"
proof (induction ls)
  case Nil
  then have "translate_newlines final = final"
    using translate_plain [of final "[]"] by simp
  with Nil show ?case by (simp add: length_readlines_last)
next
  case (Cons p ls)
  obtain l e where p: "p = (l, e)" by (cases p)
  let ?R = "lines_text ls final"
  from Cons.prems p have l: "LF \<notin> set l" "CR \<notin> set l" and ws: "well_split ls final"
    and cr: "e = End_CR \<Longrightarrow> take 1 ?R \<noteq> [LF]" by simp_all
  have "translate_newlines (line_end_text e @ ?R) = LF # translate_newlines ?R"
  proof (cases e)
    case End_LF
    then show ?thesis by (simp add: translate_not_CR)
  next
    case End_CRLF
    then show ?thesis by simp
  next
    case End_CR
    with cr have "?R = [] \<or> hd ?R \<noteq> LF" by (cases ?R) auto
    with End_CR show ?thesis by (simp add: translate_CR)
  qed
  with l have "translate_newlines (lines_text (p # ls) final) = l @ LF # translate_newlines ?R"
    by (simp add: p translate_plain)
  with l Cons.IH [OF ws] show ?case by (simp add: length_readlines_line)
qed

lemma read_line_count_readable:
  "utf8_decode pol bs = Inr text \<Longrightarrow>
     read_line_count pol (File (Readable bs)) = Inr (count_file_lines text)"
  by (simp add: read_line_count_def)

lemma printed_counts_append [simp]:
  "printed_counts (xs @ ys) = printed_counts xs @ printed_counts ys"
  by (induction xs rule: printed_counts.induct) simp_all

lemma file_step_balanced: "balanced st \<Longrightarrow> balanced (file_step pol dp e st)"
  by (auto simp: balanced_def file_step_def Let_def split: sum.splits)

lemma files_loop_balanced: "balanced st \<Longrightarrow> balanced (files_loop pol dp fns st)"
  unfolding files_loop_def by (induction fns arbitrary: st) (simp_all add: file_step_balanced)

lemma walk_loop_balanced: "balanced st \<Longrightarrow> balanced (walk_loop pol items st)"
  unfolding walk_loop_def
  by (induction items arbitrary: st) (auto simp: files_loop_balanced)

subsection \<open>The events a run prints\<close>

lemma file_step_events:
  "list_all file_event (printed st) \<Longrightarrow> list_all file_event (printed (file_step pol dp e st))"
  by (auto simp: file_step_def Let_def split: sum.splits)

lemma files_loop_events:
  "list_all file_event (printed st) \<Longrightarrow> list_all file_event (printed (files_loop pol dp fns st))"
  unfolding files_loop_def by (induction fns arbitrary: st) (simp_all add: file_step_events)

lemma walk_loop_events:
  "list_all file_event (printed st) \<Longrightarrow> list_all file_event (printed (walk_loop pol items st))"
  unfolding walk_loop_def
  by (induction items arbitrary: st) (auto simp: files_loop_events)

lemma count_lines_events: "list_all file_event (printed (count_lines fs root))"
  by (simp add: count_lines_def count_lines_with_def walk_loop_events)

lemma file_event_root: "list_all file_event evs \<Longrightarrow> list_all root_event evs"
  by (induction evs) (auto elim: file_event.elims)

lemma dir_step_events:
  "list_all root_event (emitted st) \<Longrightarrow> list_all root_event (emitted (dir_step fs d st))"
  by (simp add: dir_step_def Let_def file_event_root [OF count_lines_events])

lemma fold_dir_step_events:
  "list_all root_event (emitted st) \<Longrightarrow> list_all root_event (emitted (fold (dir_step fs) dirs st))"
  by (induction dirs arbitrary: st) (simp_all add: dir_step_events)

lemma dirs_loop_events: "list_all root_event (emitted (dirs_loop fs dirs))"
  by (simp add: dirs_loop_def fold_dir_step_events)

subsection \<open>The rendered lines tell the events apart\<close>

declare digits.simps [simp del]

lemma digits_last: "digits n \<noteq> [] \<and> last (digits n) = char_of (48 + n mod 10)"
  by (subst (1 2) digits.simps) simp

lemma digit_not_s: "char_of (48 + n mod 10 :: nat) \<noteq> CHR ''s''"
proof
  define m where "m = n mod 10"
  assume "char_of (48 + n mod 10 :: nat) = CHR ''s''"
  then have "(of_char (char_of (48 + m)) :: nat) = of_char CHR ''s''" by (simp only: m_def)
  then have "(48 + m) mod 256 = (115::nat)" by (simp only: of_char_of) simp
  moreover have "m < 10" by (simp add: m_def)
  ultimately show False by arith
qed

lemma str_int_last: "str_int i \<noteq> [] \<and> last (str_int i) \<noteq> CHR ''s''"
  using digits_last digit_not_s by (simp add: str_int_def)

lemma replicate_40: "replicate 40 c = c # c # c # replicate 37 c"
  by (simp add: numeral_eq_Suc)

lemma render_Separator_inj:
  assumes "root_event e \<or> e = Separator" "render e = render Separator"
  shows "e = Separator"
proof (cases e)
  case (FileLine p n)
  with assms(2) have "last (p @ '': '' @ str_int n @ '' lines'') = last (CHR 0x0A # replicate 40 CHR ''='')"
    by simp
  then show ?thesis by simp
next
  case (GrandTotal k c h g)
  with assms(1) show ?thesis by simp
qed (use assms(2) in \<open>simp_all add: replicate_40\<close>)

lemma render_Total_inj:
  assumes "render e = render (GrandTotal k c h g)"
  shows "\<exists>k' c' h' g'. e = GrandTotal k' c' h' g'"
proof (cases e)
  case (FileLine p n)
  with assms have "p @ '': '' @ str_int n @ '' lines''
      = ''TOTAL across '' @ str_int (int k) @ '' dirs: .cpp='' @ str_int c @ ''  .hpp='' @ str_int h @ ''  sum='' @ str_int g"
    by simp
  then have "last (p @ '': '' @ str_int n @ '' lines'')
      = last (''TOTAL across '' @ str_int (int k) @ '' dirs: .cpp='' @ str_int c @ ''  .hpp='' @ str_int h @ ''  sum='' @ str_int g)"
    by (rule arg_cong)
  with str_int_last [of g] show ?thesis by (simp del: append.simps)
qed (use assms in simp_all)

lemma main_unfold:
  "main fs argv = emitted (dirs_loop fs (args_dirs argv))
     @ (if 1 < length argv
        then [Separator, GrandTotal (length argv) (total_cpp (dirs_loop fs argv)) (total_hpp (dirs_loop fs argv))
                (total_cpp (dirs_loop fs argv) + total_hpp (dirs_loop fs argv))]
        else [])"
  by (auto simp: main_def args_dirs_def Let_def)

subsection \<open>Walking a stripped tree\<close>


lemma strip_is_dir [simp]: "is_dir (strip_unlistable n) = is_dir n"
  by (cases n rule: strip_unlistable.cases) auto

lemma strip_islink [simp]: "islink (strip_unlistable n) = islink n"
  by (cases n rule: strip_unlistable.cases) auto



lemma visits_simps [simp]:
  "visits [] = []"
  "visits ((a, b, c) # xs) = (a, c) # visits xs"
  "visits (xs @ ys) = visits xs @ visits ys"
  by (simp_all add: visits_def)


subsection \<open>Unfolding the loops\<close>

lemma read_line_count_ignore_fail:
  "open_read n = Inl cause \<Longrightarrow> read_line_count pol n = Inl cause"
  by (simp add: read_line_count_def)

lemma files_loop_append:
  "files_loop pol dp (xs @ ys) st = files_loop pol dp ys (files_loop pol dp xs st)"
  by (simp add: files_loop_def)

lemma files_loop_Cons:
  "files_loop pol dp (x # xs) st = files_loop pol dp xs (file_step pol dp x st)"
  by (simp add: files_loop_def)

lemma in_set_map_render:
  "x \<in> set (map render evs) \<longleftrightarrow> (\<exists>e \<in> set evs. render e = x)"
  by auto

subsection \<open>Runs that return\<close>







section \<open>The claims\<close>

text \<open>
  Claim C1.  For a root that names a node of the file system, the pair that
  \<^verbatim>\<open>count_lines\<close> returns holds, first, the sum of the line counts of all successfully
  read files anywhere in the subtree whose names end with \<^verbatim>\<open>.cpp\<close> and, second, the
  same sum for the names that end with \<^verbatim>\<open>.hpp\<close>; files in nested subdirectories are
  included.  The subtree is enumerated by \<open>files_under\<close>, independently of the order
  in which \<^verbatim>\<open>os.walk\<close> visits it.
\<close>

theorem count_lines_totals:
  assumes "fs root = Some n"
  shows "cpp_lines (count_lines fs root) = category_total ''.cpp'' n
       \<and> hpp_lines (count_lines fs root) = category_total ''.hpp'' n"
  using assms
  by (simp add: count_lines_def count_lines_with_def os_walk_def walk_loop_cpp walk_loop_hpp
      sum_walk_files(1) category_total_def tally_def [abs_def])

theorem count_lines_totals_witness:
  "disk ''a'' = Some tree_a
   \<and> cpp_lines (count_lines disk ''a'') = category_total ''.cpp'' tree_a
   \<and> hpp_lines (count_lines disk ''a'') = category_total ''.hpp'' tree_a
   \<and> category_total ''.cpp'' tree_a = 3 \<and> category_total ''.hpp'' tree_a = 5"
proof -
  have h: "disk ''a'' = Some tree_a" by (simp add: disk_def)
  have "category_total ''.cpp'' tree_a = 3" "category_total ''.hpp'' tree_a = 5" by code_simp+
  with h count_lines_totals [of disk "''a''" tree_a] show ?thesis by simp
qed

text \<open>
  Claim C2.  When the text of a readable file is made of exactly \<open>N\<close> terminated
  lines followed by a last, unterminated line with at least one character, the count
  for the file is \<open>N + 1\<close>: the missing terminator does not lose the last line.  For
  an empty file the count is 0.  The lines are those of the decoded text, and each one
  ends in \<^verbatim>\<open>\n\<close>, \<^verbatim>\<open>\r\n\<close> or \<^verbatim>\<open>\r\<close>.
\<close>

theorem line_count_of_file:
  "(utf8_decode Ignore bs = Inr (lines_text ls final) \<and> well_split ls final
      \<longrightarrow> read_line_count Ignore (File (Readable bs)) = Inr (int (length ls) + 1))
   \<and> read_line_count Ignore (File (Readable [])) = Inr 0"
  by (simp add: read_line_count_def count_file_lines_length length_readlines_split)

theorem line_count_of_file_witness:
  "utf8_decode Ignore [0x61, 0x0A, 0x0D, 0x0A, 0x62, 0x0D, 0xFF, 0x63]
     = Inr (lines_text [([97], End_LF), ([], End_CRLF), ([98], End_CR)] [99])
   \<and> well_split [([97], End_LF), ([], End_CRLF), ([98], End_CR)] [99]
   \<and> read_line_count Ignore (File (Readable [0x61, 0x0A, 0x0D, 0x0A, 0x62, 0x0D, 0xFF, 0x63])) = Inr 4"
proof -
  have d: "utf8_decode Ignore [0x61, 0x0A, 0x0D, 0x0A, 0x62, 0x0D, 0xFF, 0x63]
     = Inr (lines_text [([97], End_LF), ([], End_CRLF), ([98], End_CR)] [99])" by code_simp
  have w: "well_split [([97], End_LF), ([], End_CRLF), ([98], End_CR)] [99]" by simp
  from line_count_of_file [of "[0x61, 0x0A, 0x0D, 0x0A, 0x62, 0x0D, 0xFF, 0x63]"
      "[([97], End_LF), ([], End_CRLF), ([98], End_CR)]" "[99]"] d w
  show ?thesis by simp
qed

text \<open>
  Claim C3, amended.  For the argument list \<^verbatim>\<open>["a", "missing", "b"]\<close>, where \<^verbatim>\<open>a\<close> and
  \<^verbatim>\<open>b\<close> are directories and \<^verbatim>\<open>missing\<close> is not: the error line for \<^verbatim>\<open>missing\<close> goes
  to the error stream, the run goes on with \<^verbatim>\<open>b\<close>, the grand totals are the sums over
  \<^verbatim>\<open>a\<close> and \<^verbatim>\<open>b\<close> alone, and the number in the grand-total line is 3, the number of
  roots that were supplied, the invalid one included.
\<close>

theorem main_skips_missing_root:
  assumes "os_path_isdir fs ''a''" and "\<not> os_path_isdir fs ''missing''" and "os_path_isdir fs ''b''"
  shows "main fs [''a'', ''missing'', ''b'']
       = [Banner ''a''] @ printed (count_lines fs ''a'')
         @ [Summary ''a'' (cpp_lines (count_lines fs ''a'')) (hpp_lines (count_lines fs ''a'')),
            NotADirectory ''missing'',
            Banner ''b''] @ printed (count_lines fs ''b'')
         @ [Summary ''b'' (cpp_lines (count_lines fs ''b'')) (hpp_lines (count_lines fs ''b'')),
            Separator,
            GrandTotal 3 (cpp_lines (count_lines fs ''a'') + cpp_lines (count_lines fs ''b''))
                    (hpp_lines (count_lines fs ''a'') + hpp_lines (count_lines fs ''b''))
                    (cpp_lines (count_lines fs ''a'') + cpp_lines (count_lines fs ''b'')
                     + (hpp_lines (count_lines fs ''a'') + hpp_lines (count_lines fs ''b'')))]
     \<and> render (NotADirectory ''missing'') = (Stderr, ''Error: '' @ [CHR 0x27] @ ''missing'' @ [CHR 0x27] @ '' is not a directory'')"
proof -
  have "py_repr ''missing'' = [CHR 0x27] @ ''missing'' @ [CHR 0x27]" by code_simp
  with assms show ?thesis
    by (simp add: main_def args_dirs_def dirs_loop_def dir_step_def Let_def)
qed

theorem main_skips_missing_root_witness:
  "os_path_isdir disk ''a'' \<and> \<not> os_path_isdir disk ''missing'' \<and> os_path_isdir disk ''b''
   \<and> stderr_of (main disk [''a'', ''missing'', ''b''])
       = [''Warning: could not read '' @ [CHR 0x27] @ ''a/sub/z.cpp'' @ [CHR 0x27] @ '': Permission denied'',
          ''Error: '' @ [CHR 0x27] @ ''missing'' @ [CHR 0x27] @ '' is not a directory'']
   \<and> last (main disk [''a'', ''missing'', ''b'']) = GrandTotal 3 3 7 10"
proof -
  have a: "os_path_isdir disk ''a''" and m: "\<not> os_path_isdir disk ''missing''"
    and b: "os_path_isdir disk ''b''" by code_simp+
  have ca: "count_lines disk ''a'' = \<lparr>printed = [FileLine ''a/x.cpp'' 3, FileLine ''a/sub/y.hpp'' 5,
      ReadWarning ''a/sub/z.cpp'' ''Permission denied''], cpp_lines = 3, hpp_lines = 5\<rparr>" by code_simp
  have cb: "count_lines disk ''b'' = \<lparr>printed = [FileLine ''b/m.hpp'' 2], cpp_lines = 0, hpp_lines = 2\<rparr>"
    by code_simp
  have r: "py_repr ''a/sub/z.cpp'' = [CHR 0x27] @ ''a/sub/z.cpp'' @ [CHR 0x27]" by code_simp
  from main_skips_missing_root [OF a m b] a m b show ?thesis
    by (simp add: ca cb r stderr_of_def)
qed

text \<open>
  Claim C3 as stated asks for the number of valid roots in the grand-total line.  On the
  example file system two of the three roots are valid, and the line says 3:
  \<^verbatim>\<open>len(args.dirs)\<close> counts every supplied root.
\<close>

theorem total_line_counts_supplied_roots:
  "last (main disk [''a'', ''missing'', ''b'']) = GrandTotal 3 3 7 10
   \<and> length (filter (os_path_isdir disk) [''a'', ''missing'', ''b'']) = 2
   \<and> last (main disk [''a'', ''missing'', ''b''])
       \<noteq> GrandTotal (length (filter (os_path_isdir disk) [''a'', ''missing'', ''b''])) 3 7 10
   \<and> snd (render (last (main disk [''a'', ''missing'', ''b''])))
       = ''TOTAL across 3 dirs: .cpp=3  .hpp=7  sum=10''"
  by code_simp

text \<open>
  Claim C4.  A matching file that cannot be opened or read adds exactly one event to
  what is printed, the warning with the path and the cause, which goes to the error
  stream; there is no per-file line for it, both counters stay as they are, and the
  loop goes on with the files behind it.
\<close>

theorem unreadable_file_warned_and_skipped:
  assumes "endswith fname ''.cpp'' \<or> endswith fname ''.hpp''"
    and "open_read n = Inl cause"
  shows "file_step Ignore dirpath (fname, n) st
           = st\<lparr>printed := printed st @ [ReadWarning (os_path_join dirpath fname) cause]\<rparr>
       \<and> render (ReadWarning (os_path_join dirpath fname) cause)
           = (Stderr, ''Warning: could not read '' @ py_repr (os_path_join dirpath fname) @ '': '' @ cause)
       \<and> files_loop Ignore dirpath (before @ (fname, n) # after) st
           = files_loop Ignore dirpath after
               ((files_loop Ignore dirpath before st)
                  \<lparr>printed := printed (files_loop Ignore dirpath before st)
                                @ [ReadWarning (os_path_join dirpath fname) cause]\<rparr>)"
proof -
  have step: "file_step Ignore dirpath (fname, n) s
           = s\<lparr>printed := printed s @ [ReadWarning (os_path_join dirpath fname) cause]\<rparr>" for s
    using assms by (auto simp: file_step_def Let_def read_line_count_ignore_fail)
  then show ?thesis by (simp add: files_loop_append files_loop_Cons)
qed

theorem unreadable_file_warned_and_skipped_witness:
  "(endswith ''z.cpp'' ''.cpp'' \<or> endswith ''z.cpp'' ''.hpp'')
   \<and> open_read (File (Unreadable ''Permission denied'')) = Inl ''Permission denied''
   \<and> files_loop Ignore ''a/sub''
        [(''y.hpp'', File (Readable [0x0A, 0x0A])), (''z.cpp'', File (Unreadable ''Permission denied'')),
         (''k.cpp'', File (Readable [0x61]))]
        \<lparr>printed = [], cpp_lines = 0, hpp_lines = 0\<rparr>
       = \<lparr>printed = [FileLine ''a/sub/y.hpp'' 2, ReadWarning ''a/sub/z.cpp'' ''Permission denied'',
                       FileLine ''a/sub/k.cpp'' 1],
          cpp_lines = 1, hpp_lines = 2\<rparr>"
proof -
  have m: "endswith ''z.cpp'' ''.cpp'' \<or> endswith ''z.cpp'' ''.hpp''" by code_simp
  have u: "open_read (File (Unreadable ''Permission denied'')) = Inl ''Permission denied''" by simp
  have b: "files_loop Ignore ''a/sub'' [(''y.hpp'', File (Readable [0x0A, 0x0A]))]
             \<lparr>printed = [], cpp_lines = 0, hpp_lines = 0\<rparr>
           = \<lparr>printed = [FileLine ''a/sub/y.hpp'' 2], cpp_lines = 0, hpp_lines = 2\<rparr>" by code_simp
  have j: "os_path_join ''a/sub'' ''z.cpp'' = ''a/sub/z.cpp''" by code_simp
  have a: "files_loop Ignore ''a/sub'' [(''k.cpp'', File (Readable [0x61]))]
             \<lparr>printed = [FileLine ''a/sub/y.hpp'' 2, ReadWarning ''a/sub/z.cpp'' ''Permission denied''],
               cpp_lines = 0, hpp_lines = 2\<rparr>
           = \<lparr>printed = [FileLine ''a/sub/y.hpp'' 2, ReadWarning ''a/sub/z.cpp'' ''Permission denied'',
                           FileLine ''a/sub/k.cpp'' 1],
              cpp_lines = 1, hpp_lines = 2\<rparr>" by code_simp
  from unreadable_file_warned_and_skipped [OF m u, where dirpath = "''a/sub''"
      and before = "[(''y.hpp'', File (Readable [0x0A, 0x0A]))]"
      and after = "[(''k.cpp'', File (Readable [0x61]))]"
      and st = "\<lparr>printed = [], cpp_lines = 0, hpp_lines = 0\<rparr>"]
  have "files_loop Ignore ''a/sub''
        ([(''y.hpp'', File (Readable [0x0A, 0x0A]))] @ (''z.cpp'', File (Unreadable ''Permission denied''))
           # [(''k.cpp'', File (Readable [0x61]))])
        \<lparr>printed = [], cpp_lines = 0, hpp_lines = 0\<rparr>
       = \<lparr>printed = [FileLine ''a/sub/y.hpp'' 2, ReadWarning ''a/sub/z.cpp'' ''Permission denied'',
                       FileLine ''a/sub/k.cpp'' 1],
          cpp_lines = 1, hpp_lines = 2\<rparr>"
    by (simp add: b j a)
  with m u show ?thesis by simp
qed

text \<open>
  Claim C5.  A file whose name ends with neither suffix leaves the state as it is:
  nothing is printed and nothing is counted.  A file that is read successfully has its
  count added to exactly one counter, chosen by the suffix alone: \<^verbatim>\<open>.cpp\<close> adds to the
  first and leaves the second, \<^verbatim>\<open>.hpp\<close> adds to the second and leaves the first.
\<close>

theorem file_counted_by_extension:
  "(\<not> endswith fname ''.cpp'' \<and> \<not> endswith fname ''.hpp''
      \<longrightarrow> file_step pol dirpath (fname, n) st = st)
   \<and> (endswith fname ''.cpp'' \<and> read_line_count pol n = Inr k
      \<longrightarrow> file_step pol dirpath (fname, n) st
          = st\<lparr>printed := printed st @ [FileLine (os_path_join dirpath fname) k],
               cpp_lines := cpp_lines st + k\<rparr>)
   \<and> (endswith fname ''.hpp'' \<and> read_line_count pol n = Inr k
      \<longrightarrow> file_step pol dirpath (fname, n) st
          = st\<lparr>printed := printed st @ [FileLine (os_path_join dirpath fname) k],
               hpp_lines := hpp_lines st + k\<rparr>)"
  by (auto simp: file_step_def Let_def dest: cpp_not_hpp)

theorem file_counted_by_extension_witness:
  "\<not> endswith ''readme.md'' ''.cpp'' \<and> \<not> endswith ''readme.md'' ''.hpp''
   \<and> file_step Ignore ''a'' (''readme.md'', File (Readable [0x68, 0x69, 0x0A]))
         \<lparr>printed = [], cpp_lines = 4, hpp_lines = 6\<rparr>
       = \<lparr>printed = [], cpp_lines = 4, hpp_lines = 6\<rparr>
   \<and> endswith ''x.cpp'' ''.cpp''
   \<and> read_line_count Ignore (File (Readable [0x61, 0x0A, 0x62, 0x0A, 0x63])) = Inr 3
   \<and> file_step Ignore ''a'' (''x.cpp'', File (Readable [0x61, 0x0A, 0x62, 0x0A, 0x63]))
         \<lparr>printed = [], cpp_lines = 4, hpp_lines = 6\<rparr>
       = \<lparr>printed = [FileLine ''a/x.cpp'' 3], cpp_lines = 7, hpp_lines = 6\<rparr>
   \<and> endswith ''y.hpp'' ''.hpp''
   \<and> file_step Ignore ''a'' (''y.hpp'', File (Readable [0x61, 0x0A, 0x62, 0x0A, 0x63]))
         \<lparr>printed = [], cpp_lines = 4, hpp_lines = 6\<rparr>
       = \<lparr>printed = [FileLine ''a/y.hpp'' 3], cpp_lines = 4, hpp_lines = 9\<rparr>"
proof -
  have n: "\<not> endswith ''readme.md'' ''.cpp''" "\<not> endswith ''readme.md'' ''.hpp''" by code_simp+
  have c: "endswith ''x.cpp'' ''.cpp''" and h: "endswith ''y.hpp'' ''.hpp''" by code_simp+
  have r: "read_line_count Ignore (File (Readable [0x61, 0x0A, 0x62, 0x0A, 0x63])) = Inr 3"
    by code_simp
  have j: "os_path_join ''a'' ''x.cpp'' = ''a/x.cpp''" "os_path_join ''a'' ''y.hpp'' = ''a/y.hpp''"
    by code_simp+
  note t = file_counted_by_extension [where pol = Ignore and dirpath = "''a''"
      and st = "\<lparr>printed = [], cpp_lines = 4, hpp_lines = 6\<rparr>"]
  from t [where fname = "''readme.md''" and n = "File (Readable [0x68, 0x69, 0x0A])"]
    t [where fname = "''x.cpp''" and n = "File (Readable [0x61, 0x0A, 0x62, 0x0A, 0x63])" and k = 3]
    t [where fname = "''y.hpp''" and n = "File (Readable [0x61, 0x0A, 0x62, 0x0A, 0x63])" and k = 3]
    n c h r j
  show ?thesis by simp
qed

text \<open>
  Claim C6.  The separator line and the grand-total line are among the printed lines if
  and only if more than one root was supplied; with one root, or with none and the
  default \<^verbatim>\<open>['.']\<close>, neither is printed.  The statement is about the rendered lines:
  no other line of a run reads like the separator or like a grand-total line.
\<close>

theorem grand_total_block_iff:
  "(render Separator \<in> set (map render (main fs argv)) \<longleftrightarrow> 1 < length (args_dirs argv))
   \<and> ((\<exists>k c h g. render (GrandTotal k c h g) \<in> set (map render (main fs argv)))
        \<longleftrightarrow> 1 < length (args_dirs argv))
   \<and> args_dirs [] = [''.'']"
proof -
  let ?E = "emitted (dirs_loop fs (args_dirs argv))"
  have E: "\<And>e. e \<in> set ?E \<Longrightarrow> root_event e"
    using dirs_loop_events [of fs "args_dirs argv"] by (simp add: list_all_iff)
  have len: "1 < length (args_dirs argv) \<longleftrightarrow> 1 < length argv"
    by (simp add: args_dirs_def)
  show ?thesis
  proof (cases "1 < length argv")
    case True
    then have "Separator \<in> set (main fs argv)"
      and "\<exists>k c h g. GrandTotal k c h g \<in> set (main fs argv)"
      by (auto simp: main_unfold)
    then have "render Separator \<in> set (map render (main fs argv))"
      and "\<exists>k c h g. render (GrandTotal k c h g) \<in> set (map render (main fs argv))"
      by (simp_all del: render.simps) blast
    with True len show ?thesis by (simp add: args_dirs_def)
  next
    case False
    then have m: "main fs argv = ?E" by (simp add: main_unfold)
    have "render Separator \<notin> set (map render ?E)"
    proof
      assume "render Separator \<in> set (map render ?E)"
      then obtain e where e: "e \<in> set ?E" "render e = render Separator"
        unfolding in_set_map_render by blast
      from E [OF e(1)] e(2) have "e = Separator" by (simp add: render_Separator_inj)
      with E [OF e(1)] show False by simp
    qed
    moreover have "\<not> (\<exists>k c h g. render (GrandTotal k c h g) \<in> set (map render ?E))"
    proof
      assume "\<exists>k c h g. render (GrandTotal k c h g) \<in> set (map render ?E)"
      then obtain k c h g e where e: "e \<in> set ?E" "render e = render (GrandTotal k c h g)"
        unfolding in_set_map_render by blast
      from render_Total_inj [OF e(2)] obtain k' c' h' g' where "e = GrandTotal k' c' h' g'" by blast
      with E [OF e(1)] show False by simp
    qed
    ultimately show ?thesis using False len m by (simp add: args_dirs_def)
  qed
qed

theorem grand_total_block_iff_witness:
  "render Separator \<in> set (map render (main disk [''a'', ''b'']))
   \<and> render Separator \<notin> set (map render (main disk [''a'']))
   \<and> render Separator \<notin> set (map render (main disk []))
   \<and> length (args_dirs [''a'', ''b'']) = 2 \<and> length (args_dirs [''a'']) = 1
   \<and> length (args_dirs []) = 1"
proof -
  have "length (args_dirs [''a'', ''b'']) = 2" "length (args_dirs [''a'']) = 1"
    "length (args_dirs []) = 1" by (simp_all add: args_dirs_def)
  with grand_total_block_iff [of disk "[''a'', ''b'']"] grand_total_block_iff [of disk "[''a'']"]
    grand_total_block_iff [of disk "[]"]
  show ?thesis by (simp del: render.simps)
qed

text \<open>
  Claim C7.  For a valid root \<open>r\<close>, the argument list \<^verbatim>\<open>[r, r]\<close> scans \<open>r\<close> twice, and
  the grand totals for \<^verbatim>\<open>.cpp\<close>, for \<^verbatim>\<open>.hpp\<close> and for their sum are twice the totals
  of \<open>r\<close>.
\<close>

theorem same_root_twice:
  assumes "os_path_isdir fs r"
  shows "main fs [r, r]
       = [Banner r] @ printed (count_lines fs r)
         @ [Summary r (cpp_lines (count_lines fs r)) (hpp_lines (count_lines fs r)), Banner r]
         @ printed (count_lines fs r)
         @ [Summary r (cpp_lines (count_lines fs r)) (hpp_lines (count_lines fs r)),
            Separator,
            GrandTotal 2 (2 * cpp_lines (count_lines fs r)) (2 * hpp_lines (count_lines fs r))
                    (2 * (cpp_lines (count_lines fs r) + hpp_lines (count_lines fs r)))]"
  using assms by (simp add: main_def args_dirs_def dirs_loop_def dir_step_def Let_def)

theorem same_root_twice_witness:
  "os_path_isdir disk ''a''
   \<and> last (main disk [''a'', ''a'']) = GrandTotal 2 6 10 16
   \<and> cpp_lines (count_lines disk ''a'') = 3 \<and> hpp_lines (count_lines disk ''a'') = 5"
proof -
  have a: "os_path_isdir disk ''a''" by code_simp
  have c: "cpp_lines (count_lines disk ''a'') = 3" "hpp_lines (count_lines disk ''a'') = 5"
    by code_simp+
  from same_root_twice [OF a] a c show ?thesis by simp
qed

text \<open>
  Claim C8.  The two totals that \<^verbatim>\<open>count_lines\<close> returns add up to the sum of the
  counts in the per-file lines it printed.
\<close>

theorem totals_equal_printed_counts:
  "cpp_lines (count_lines fs root) + hpp_lines (count_lines fs root)
     = sum_list (printed_counts (printed (count_lines fs root)))"
proof -
  have "balanced \<lparr>printed = [], cpp_lines = 0, hpp_lines = 0\<rparr>" by (simp add: balanced_def)
  then have "balanced (count_lines fs root)"
    unfolding count_lines_def count_lines_with_def by (rule walk_loop_balanced)
  then show ?thesis by (simp add: balanced_def)
qed

theorem totals_equal_printed_counts_witness:
  "cpp_lines (count_lines disk ''a'') + hpp_lines (count_lines disk ''a'') = 8
   \<and> printed_counts (printed (count_lines disk ''a'')) = [3, 5]"
proof -
  have "printed_counts (printed (count_lines disk ''a'')) = [3, 5]" by code_simp
  with totals_equal_printed_counts [of disk "''a''"] show ?thesis by simp
qed

text \<open>
  Claim C9.  Whatever the bytes of a readable file, decoding under \<^verbatim>\<open>errors='ignore'\<close>
  yields a text, no decoding failure is raised, and the file gets a line count.  The
  example after the theorem has a byte that the strict decoder rejects.
\<close>

theorem ignore_never_fails:
  "\<exists>text. utf8_decode Ignore bs = Inr text
     \<and> read_line_count Ignore (File (Readable bs)) = Inr (count_file_lines text)"
  using utf8_decode_ignore_total [of bs] by (auto simp: read_line_count_def)

theorem ignore_never_fails_witness:
  "utf8_decode Strict [0x61, 0xFF, 0x0A, 0xC3] = Inl ''invalid start byte''
   \<and> utf8_decode Ignore [0x61, 0xFF, 0x0A, 0xC3] = Inr [97, LF]
   \<and> read_line_count Ignore (File (Readable [0x61, 0xFF, 0x0A, 0xC3])) = Inr 1"
proof -
  have s: "utf8_decode Strict [0x61, 0xFF, 0x0A, 0xC3] = Inl ''invalid start byte''" by code_simp
  have i: "utf8_decode Ignore [0x61, 0xFF, 0x0A, 0xC3] = Inr [97, LF]" by code_simp
  have c: "count_file_lines [97, LF] = 1" by code_simp
  from ignore_never_fails [of "[0x61, 0xFF, 0x0A, 0xC3]"] s i c show ?thesis by simp
qed




end
